theory Spec2Isabelle
  imports Main "HOL-Library.Word"
begin

section \<open>A segmented download engine (Main.go)\<close>

text \<open>
  The engine of \<^verbatim>\<open>Main.go\<close>: a \<^verbatim>\<open>File\<close> is split into \<^verbatim>\<open>MaxThread\<close> byte ranges at
  \<^verbatim>\<open>Start\<close>, one goroutine per range runs \<^verbatim>\<open>downloadBlock\<close> in a retry loop, and
  \<^verbatim>\<open>download\<close> collects their completion signals before it reports a pause or the end.

  Conventions of the embedding.
  \<^item> Go's \<^verbatim>\<open>int64\<close> quantities (sizes, offsets, byte counts) are values of \<^typ>\<open>int\<close>.
    The sizes and offsets are those of one resource, below \<open>2^63\<close>, where \<^verbatim>\<open>int64\<close>
    arithmetic is integer arithmetic; the running total \<^verbatim>\<open>Downloaded\<close> is treated with the
    wrap-around of \<^verbatim>\<open>int64\<close> where its growth is the question (\<open>wrap64\<close>). The only division, \<^verbatim>\<open>f.Size / int64(MaxThread)\<close>, runs with both operands
    positive, where Go's truncating division is \<open>div\<close>.
  \<^item> A slice is a list. The program builds \<^verbatim>\<open>BlockList\<close> from the zero value \<^verbatim>\<open>nil\<close> by
    \<^verbatim>\<open>append\<close> only, so the test \<^verbatim>\<open>f.BlockList == nil\<close> is the test for the empty list.
  \<^item> The network and the file system are inputs: a fetch attempt is scripted by what
    \<^verbatim>\<open>http.NewRequest\<close>, \<^verbatim>\<open>Do\<close>, \<^verbatim>\<open>Body.Read\<close> and \<^verbatim>\<open>WriteAt\<close> give back, in order.
  \<^item> The destination \<^verbatim>\<open>Stream\<close> is the log of the \<^verbatim>\<open>WriteAt\<close> calls that succeeded
    (offset and bytes); the callbacks fired and the \<^verbatim>\<open>Range\<close> headers sent are logged in
    the same way, so that a theorem can say what was and what was not done.
  \<^item> The parameter \<^verbatim>\<open>id\<close> of the source is written \<open>k\<close> (\<open>id\<close> is the identity of HOL).
  \<^item> In the functions, goroutines are interleaved pass by pass: one iteration of a chunk
    loop is one step, and a call of \<^verbatim>\<open>Pause\<close> from the controlling thread falls between two
    such steps; \<^verbatim>\<open>download\<close> runs its fetchers one after the other in index order. The
    source takes no lock, so for the shared counter \<^verbatim>\<open>Downloaded\<close> the passes are cut
    further, into the steps of \<open>exec\<close>, with the load and the store of its \<^verbatim>\<open>+=\<close> apart
    and the addition that of \<^verbatim>\<open>int64\<close>.
\<close>

subsection \<open>Data\<close>

type_synonym byte = "8 word"

definition MaxThread :: nat where
  "MaxThread = 5"

definition CacheSize :: nat where
  "CacheSize = 1024"

record Status =
  Downloaded :: int
  Speeds :: int

record Block =
  Begin :: int
  End :: int

text \<open>
  Values of Go's \<^verbatim>\<open>error\<close> that the engine sees: \<^verbatim>\<open>io.EOF\<close>, a failure of the HTTP client
  (\<^verbatim>\<open>NewRequest\<close>, \<^verbatim>\<open>Do\<close>, \<^verbatim>\<open>Body.Read\<close>), a failure of \<^verbatim>\<open>os.File.WriteAt\<close>, and a value made
  by \<^verbatim>\<open>errors.New\<close>.
\<close>

datatype error = EOF | NetError | WriteError | ErrorsNew string

datatype callback = OnStart | OnPause | OnResume | OnFinish | OnError int error

text \<open>
  \<open>calls\<close> logs each callback with the value \<^verbatim>\<open>f.paused\<close> had when it was invoked;
  \<open>requests\<close> logs the \<^verbatim>\<open>Range\<close> header of each GET handed to \<^verbatim>\<open>http.DefaultClient.Do\<close>
  (\<open>None\<close>: no header); \<open>monitors\<close> counts the goroutines launched by \<^verbatim>\<open>startGetSpeeds\<close>.
\<close>

record File =
  Url :: string
  Size :: int
  Stream :: "(int \<times> byte list) list"
  BlockList :: "Block list"
  paused :: bool
  status :: Status
  calls :: "(callback \<times> bool) list"
  requests :: "(int \<times> int) option list"
  monitors :: nat

definition fire :: "callback \<Rightarrow> File \<Rightarrow> File" where
  "fire cb f = f\<lparr>calls := calls f @ [(cb, paused f)]\<rparr>"

text \<open>\<^verbatim>\<open>New\<close> after a successful probe: the content length, an empty sink, nothing else set.\<close>

definition New :: "string \<Rightarrow> int \<Rightarrow> File" where
  "New url contentLength =
     \<lparr>Url = url, Size = contentLength, Stream = [], BlockList = [], paused = False,
      status = \<lparr>Downloaded = 0, Speeds = 0\<rparr>, calls = [], requests = [], monitors = 0\<rparr>"

subsection \<open>The block plan of \<^verbatim>\<open>Start\<close>\<close>

text \<open>
  \<^verbatim>\<open>for i := 0; i < MaxThread; i++ { end = (i+1)*blockSize; append Block{begin, end};
  begin = end + 1 }\<close>
\<close>

function plan_loop :: "int \<Rightarrow> nat \<Rightarrow> int \<Rightarrow> Block list \<Rightarrow> Block list" where
  "plan_loop blockSize i begin bl =
     (if i < MaxThread then
        (let end = (int i + 1) * blockSize
         in plan_loop blockSize (i + 1) (end + 1) (bl @ [\<lparr>Begin = begin, End = end\<rparr>]))
      else bl)"
  by pat_completeness auto
termination
  by (relation "measure (\<lambda>(blockSize, i, begin, bl). MaxThread - i)") auto

declare plan_loop.simps [simp del]

text \<open>
  The first part of \<^verbatim>\<open>Start\<close>: the plan is appended to the list the file already has, and
  the entry at index \<^verbatim>\<open>MaxThread-1\<close> gets \<^verbatim>\<open>End += f.Size - End\<close>.
\<close>

definition plan :: "File \<Rightarrow> File" where
  "plan f =
     (if Size f \<le> 0 then f\<lparr>BlockList := BlockList f @ [\<lparr>Begin = 0, End = - 1\<rparr>]\<rparr>
      else
        (let blockSize = Size f div int MaxThread;
             bl = plan_loop blockSize 0 0 (BlockList f);
             b = bl ! (MaxThread - 1)
         in f\<lparr>BlockList := bl[MaxThread - 1 := b\<lparr>End := End b + (Size f - End b)\<rparr>]\<rparr>))"

subsection \<open>One fetch: \<^verbatim>\<open>downloadBlock\<close>\<close>

text \<open>
  What the world gives back during one fetch. \<open>Read data e werr\<close> is one pass of the chunk
  loop: \<^verbatim>\<open>resp.Body.Read(buf)\<close> fills \<open>data\<close> into the buffer and reports \<open>e\<close>, and the
  \<^verbatim>\<open>WriteAt\<close> of that pass reports \<open>werr\<close>. \<open>PauseCall\<close> is a call of \<^verbatim>\<open>Pause\<close> by the
  controlling thread at this point of the fetch. A script that runs out stands for a
  connection that delivers nothing more and never closes. In a run of the program
  \<open>data\<close> has at most \<^verbatim>\<open>CacheSize\<close> bytes, the length of \<^verbatim>\<open>buf\<close>; nothing below needs it.
\<close>

datatype event = Read "byte list" "error option" "error option" | PauseCall

datatype attempt = NewRequestFails error | DoFails error | Response "event list"

text \<open>
  How a call of \<^verbatim>\<open>downloadBlock\<close> ends: it returns an \<^verbatim>\<open>error\<close> (\<open>None\<close> is \<^verbatim>\<open>nil\<close>), it
  panics (an index or a slice bound out of range), or it stays in \<^verbatim>\<open>Read\<close> for ever.
\<close>

datatype ret = Ret "error option" | Panic | Stalled

definition Pause :: "File \<Rightarrow> File" where
  "Pause f = f\<lparr>paused := True\<rparr>"

text \<open>
  \<^verbatim>\<open>f.Stream.WriteAt(b, off)\<close>; the caller drops both results, so \<open>werr\<close> only decides
  whether the bytes reach the sink.
\<close>

definition WriteAt :: "byte list \<Rightarrow> int \<Rightarrow> error option \<Rightarrow> File \<Rightarrow> File" where
  "WriteAt b off werr f =
     (case werr of None \<Rightarrow> f\<lparr>Stream := Stream f @ [(off, b)]\<rparr> | Some x \<Rightarrow> f)"

text \<open>
  The body of the chunk loop after the test of \<^verbatim>\<open>f.paused\<close> (lines 144 to 165), with
  \<open>needSize\<close> the bytes the block is still owed (line 148). The result \<open>None\<close> goes round
  the loop again; \<^verbatim>\<open>buf[:n]\<close> with a negative \<^verbatim>\<open>n\<close> panics.
\<close>

definition needSize :: "nat \<Rightarrow> File \<Rightarrow> int" where
  "needSize k f = End (BlockList f ! k) + 1 - Begin (BlockList f ! k)"

definition downloadBlock_iter ::
  "int \<Rightarrow> nat \<Rightarrow> byte list \<Rightarrow> error option \<Rightarrow> error option \<Rightarrow> File \<Rightarrow> ret option \<times> File" where
  "downloadBlock_iter end k data e werr f =
     (let cut = (end \<noteq> - 1 \<and> int (length data) > needSize k f);
          bufSize = (if cut then needSize k f else int (length data));
          n = (if cut then needSize k f else int (length data));
          e = (if cut then Some EOF else e)
      in if n < 0 then (Some Panic, f)
         else
           (let f = WriteAt (take (nat n) data) (Begin (BlockList f ! k)) werr f;
                f = f\<lparr>status := (status f)\<lparr>Downloaded := Downloaded (status f) + bufSize\<rparr>\<rparr>;
                f = f\<lparr>BlockList := (BlockList f)
                       [k := (BlockList f ! k)\<lparr>Begin := Begin (BlockList f ! k) + bufSize\<rparr>]\<rparr>
            in case e of
                 None \<Rightarrow> (None, f)
               | Some err \<Rightarrow> if err = EOF then (Some (Ret None), f) else (Some (Ret (Some err)), f)))"

text \<open>
  The chunk loop (lines 139 to 166), with the part of the script it did not use.
\<close>

fun downloadBlock_loop :: "int \<Rightarrow> nat \<Rightarrow> event list \<Rightarrow> File \<Rightarrow> ret \<times> File \<times> event list" where
  "downloadBlock_loop end k [] f =
     (if paused f then (Ret None, f, []) else (Stalled, f, []))"
| "downloadBlock_loop end k (PauseCall # evs) f = downloadBlock_loop end k evs (Pause f)"
| "downloadBlock_loop end k (Read data e werr # evs) f =
     (if paused f then (Ret None, f, Read data e werr # evs)
      else
        (case downloadBlock_iter end k data e werr f of
           (None, f') \<Rightarrow> downloadBlock_loop end k evs f'
         | (Some r, f') \<Rightarrow> (r, f', evs)))"

definition send :: "nat \<Rightarrow> File \<Rightarrow> File" where
  "send k f =
     (let begin = Begin (BlockList f ! k); end = End (BlockList f ! k)
      in f\<lparr>requests := requests f @ [if end \<noteq> - 1 then Some (begin, end) else None]\<rparr>)"

fun downloadBlock :: "nat \<Rightarrow> attempt \<Rightarrow> File \<Rightarrow> ret \<times> File" where
  "downloadBlock k (NewRequestFails err) f = (Ret (Some err), f)"
| "downloadBlock k (DoFails err) f =
     (if k < length (BlockList f) then (Ret (Some err), send k f) else (Panic, f))"
| "downloadBlock k (Response body) f =
     (if k < length (BlockList f) then
        (case downloadBlock_loop (End (BlockList f ! k)) k body (send k f) of
           (r, f', rest) \<Rightarrow> (r, f'))
      else (Panic, f))"

subsection \<open>The coordinator: \<^verbatim>\<open>download\<close>, \<^verbatim>\<open>Start\<close>, \<^verbatim>\<open>Resume\<close>\<close>

text \<open>
  The goroutine of one block (lines 89 to 102): \<^verbatim>\<open>downloadBlock\<close> again and again until it
  returns \<^verbatim>\<open>nil\<close>, then the deferred \<^verbatim>\<open>ok <- true\<close>. One scripted attempt per call; when
  the attempts run out, or a call stays in \<^verbatim>\<open>Read\<close>, nothing is sent on \<^verbatim>\<open>ok\<close>.
\<close>

datatype fetch_end = Completed | NoCompletion | Panicked

fun fetcher :: "nat \<Rightarrow> attempt list \<Rightarrow> File \<Rightarrow> fetch_end \<times> File" where
  "fetcher k [] f = (NoCompletion, f)"
| "fetcher k (a # as) f =
     (case downloadBlock k a f of
        (Ret None, f') \<Rightarrow> (Completed, f')
      | (Ret (Some err), f') \<Rightarrow> fetcher k as (fire (OnError 0 err) f')
      | (Panic, f') \<Rightarrow> (Panicked, f')
      | (Stalled, f') \<Rightarrow> (NoCompletion, f'))"

definition script :: "attempt list list \<Rightarrow> nat \<Rightarrow> attempt list" where
  "script env k = (if k < length env then env ! k else [])"

text \<open>\<^verbatim>\<open>for i := range f.BlockList { go func(id int) {...}(i) }\<close>; a panic ends the process.\<close>

fun spawn :: "nat list \<Rightarrow> attempt list list \<Rightarrow> File \<Rightarrow> fetch_end list \<times> File" where
  "spawn [] env f = ([], f)"
| "spawn (k # ids) env f =
     (case fetcher k (script env k) f of
        (r, f') \<Rightarrow>
          if r = Panicked then ([r], f')
          else (case spawn ids env f' of (rs, f'') \<Rightarrow> (r # rs, f'')))"

text \<open>
  \<^verbatim>\<open>for i := 0; i < MaxThread; i++ { <-ok }\<close> with \<open>n\<close> receives still to do and \<open>sent\<close>
  values that will ever be in the channel: \<open>False\<close> when a receive waits for ever.
\<close>

fun await :: "nat \<Rightarrow> nat \<Rightarrow> bool" where
  "await 0 sent = True"
| "await (Suc n) sent = (if sent = 0 then False else await n (sent - 1))"

datatype 'a outcome = Returned 'a | Blocked | Crashed

definition startGetSpeeds :: "File \<Rightarrow> File" where
  "startGetSpeeds f = f\<lparr>monitors := monitors f + 1\<rparr>"

text \<open>
  One pass of the loop of the speed monitor with its local \<^verbatim>\<open>old\<close>; \<open>None\<close>: the goroutine
  has returned.
\<close>

definition getSpeeds_iter :: "int \<Rightarrow> File \<Rightarrow> int option \<times> File" where
  "getSpeeds_iter old f =
     (if paused f then (None, f\<lparr>status := (status f)\<lparr>Speeds := 0\<rparr>\<rparr>)
      else (Some (Downloaded (status f)),
            f\<lparr>status := (status f)\<lparr>Speeds := Downloaded (status f) - old\<rparr>\<rparr>))"

definition download :: "attempt list list \<Rightarrow> File \<Rightarrow> error option outcome \<times> File" where
  "download env f =
     (case spawn [0..<length (BlockList f)] env (startGetSpeeds f) of
        (ends, f') \<Rightarrow>
          if Panicked \<in> set ends then (Crashed, f')
          else if \<not> await MaxThread (length (filter (\<lambda>r. r = Completed) ends)) then (Blocked, f')
          else if paused f' then (Returned None, fire OnPause f')
          else (Returned None, fire OnFinish (f'\<lparr>paused := True\<rparr>)))"

text \<open>The goroutine that \<^verbatim>\<open>Start\<close> and \<^verbatim>\<open>Resume\<close> end with: \<^verbatim>\<open>download\<close>, then its error.\<close>

definition run_download :: "attempt list list \<Rightarrow> File \<Rightarrow> unit outcome \<times> File" where
  "run_download env f =
     (case download env f of
        (Returned None, f') \<Rightarrow> (Returned (), f')
      | (Returned (Some err), f') \<Rightarrow> (Returned (), fire (OnError 0 err) f')
      | (Blocked, f') \<Rightarrow> (Blocked, f')
      | (Crashed, f') \<Rightarrow> (Crashed, f'))"

definition Start :: "attempt list list \<Rightarrow> File \<Rightarrow> unit outcome \<times> File" where
  "Start env f = run_download env (fire OnStart (plan f))"

definition noBlocks :: error where
  "noBlocks = ErrorsNew ''BlockList == nil, can not get block info''"

definition Resume :: "attempt list list \<Rightarrow> File \<Rightarrow> unit outcome \<times> File" where
  "Resume env f =
     (let f = f\<lparr>paused := False\<rparr>
      in if BlockList f = [] then (Returned (), fire (OnError 0 noBlocks) f)
         else run_download env (fire OnResume f))"

subsection \<open>Notions used in the statements\<close>

text \<open>
  Lines 157 and 158 in one step: \<open>n\<close> more bytes counted and block \<open>k\<close> moved on by \<open>n\<close>.
\<close>

definition credit :: "nat \<Rightarrow> int \<Rightarrow> File \<Rightarrow> File" where
  "credit k n f =
     f\<lparr>status := (status f)\<lparr>Downloaded := Downloaded (status f) + n\<rparr>,
       BlockList := (BlockList f)[k := (BlockList f ! k)\<lparr>Begin := Begin (BlockList f ! k) + n\<rparr>]\<rparr>"

text \<open>Lines 160 to 165: what the loop does with the error of the read.\<close>

definition after :: "error option \<Rightarrow> ret option" where
  "after e = (case e of None \<Rightarrow> None | Some err \<Rightarrow> Some (if err = EOF then Ret None else Ret (Some err)))"

text \<open>Every write of the log ends at or before offset \<open>end\<close>.\<close>

definition within :: "int \<Rightarrow> (int \<times> byte list) list \<Rightarrow> bool" where
  "within end ws = list_all (\<lambda>(off, b). off + int (length b) \<le> end + 1) ws"

text \<open>
  The engine step by step, for what concurrent goroutines do to \<^verbatim>\<open>f.status.Downloaded\<close>.
  Go's \<^verbatim>\<open>int64\<close> addition wraps: \<open>wrap64\<close> is its result.
\<close>

definition wrap64 :: "int \<Rightarrow> int" where
  "wrap64 x = (x + 2 ^ 63) mod 2 ^ 64 - 2 ^ 63"

text \<open>
  One fetcher goroutine inside \<^verbatim>\<open>downloadBlock\<close>: where it stands, and its locals \<^verbatim>\<open>end\<close>,
  \<^verbatim>\<open>buf\<close>, \<^verbatim>\<open>n\<close>, \<^verbatim>\<open>bufSize\<close>, \<^verbatim>\<open>e\<close> and the value of \<^verbatim>\<open>f.status.Downloaded\<close> it has read for
  the \<^verbatim>\<open>+=\<close> of line 157, which is a read of the field followed by a write of it.
\<close>

datatype pc = AtRead | AtWriteAt | AtLoad | AtStore | AtAdvance | Gone

record goroutine =
  at :: pc
  end_local :: int
  buf :: "byte list"
  n_local :: int
  bufSize :: int
  e_local :: "error option"
  loaded :: int

definition idle :: goroutine where
  "idle = \<lparr>at = Gone, end_local = 0, buf = [], n_local = 0, bufSize = 0, e_local = None,
            loaded = 0\<rparr>"

record machine =
  shared :: File
  fetchers :: "nat \<Rightarrow> goroutine"


text \<open>\<^verbatim>\<open>Resume\<close> up to the call of \<^verbatim>\<open>download\<close> (lines 174 to 181).\<close>

definition Resume_head :: "File \<Rightarrow> File" where
  "Resume_head f =
     (let f = f\<lparr>paused := False\<rparr>
      in if BlockList f = [] then fire (OnError 0 noBlocks) f else fire OnResume f)"

text \<open>\<^verbatim>\<open>download\<close> after the receive loop (lines 108 to 113).\<close>

definition download_tail :: "File \<Rightarrow> File" where
  "download_tail f = (if paused f then fire OnPause f else fire OnFinish (f\<lparr>paused := True\<rparr>))"

text \<open>
  The steps. Of the fetcher of block \<open>k\<close>: \<open>Enter\<close>, a call of \<^verbatim>\<open>downloadBlock\<close> up to the loop
  (the request is sent, \<^verbatim>\<open>end\<close> is read); \<open>BodyRead\<close>, lines 140 to 154 (the test of
  \<^verbatim>\<open>f.paused\<close>, the read, the cut); \<open>StreamWriteAt\<close>, line 155, where \<^verbatim>\<open>buf[:n]\<close> panics for a
  negative \<^verbatim>\<open>n\<close>; \<open>Load\<close> and \<open>Store\<close>, the two halves of line 157; \<open>Advance\<close>, lines 158 to
  165. Of the other threads: \<open>CallStart\<close>, \<^verbatim>\<open>Start\<close> up to the call of \<^verbatim>\<open>download\<close>;
  \<open>CallPause\<close>; \<open>CallResume\<close>; \<open>Launch\<close>, the \<^verbatim>\<open>startGetSpeeds\<close> of \<^verbatim>\<open>download\<close>; \<open>Sample\<close>, a
  pass of the speed monitor; \<open>Retry\<close>, the error callback of the retry loop (line 97);
  \<open>Decide\<close>, the end of \<^verbatim>\<open>download\<close>. A step of a goroutine that does not stand there
  does nothing. A list of steps is one interleaving of the threads of a transfer.
\<close>

datatype step =
    Enter nat
  | BodyRead nat "byte list" "error option"
  | StreamWriteAt nat "error option"
  | Load nat
  | Store nat
  | Advance nat
  | CallStart
  | CallPause
  | CallResume
  | Launch
  | Sample int
  | Retry error
  | Decide

fun exec :: "step \<Rightarrow> machine \<Rightarrow> machine" where
  "exec (Enter k) m =
     (if at (fetchers m k) = Gone \<and> k < length (BlockList (shared m)) then
        m\<lparr>shared := send k (shared m),
          fetchers := (fetchers m)
            (k := idle\<lparr>at := AtRead, end_local := End (BlockList (shared m) ! k)\<rparr>)\<rparr>
      else m)"
| "exec (BodyRead k data e) m =
     (let g = fetchers m k in
      if at g \<noteq> AtRead then m
      else if paused (shared m) then m\<lparr>fetchers := (fetchers m)(k := g\<lparr>at := Gone\<rparr>)\<rparr>
      else
        (let cut = (end_local g \<noteq> - 1 \<and> int (length data) > needSize k (shared m))
         in m\<lparr>fetchers := (fetchers m)
              (k := g\<lparr>at := AtWriteAt, buf := data,
                     bufSize := (if cut then needSize k (shared m) else int (length data)),
                     n_local := (if cut then needSize k (shared m) else int (length data)),
                     e_local := (if cut then Some EOF else e)\<rparr>)\<rparr>))"
| "exec (StreamWriteAt k werr) m =
     (let g = fetchers m k in
      if at g \<noteq> AtWriteAt then m
      else if n_local g < 0 then m\<lparr>fetchers := (fetchers m)(k := g\<lparr>at := Gone\<rparr>)\<rparr>
      else
        m\<lparr>shared := WriteAt (take (nat (n_local g)) (buf g)) (Begin (BlockList (shared m) ! k)) werr
                    (shared m),
          fetchers := (fetchers m)(k := g\<lparr>at := AtLoad\<rparr>)\<rparr>)"
| "exec (Load k) m =
     (let g = fetchers m k in
      if at g \<noteq> AtLoad then m
      else m\<lparr>fetchers := (fetchers m)
                (k := g\<lparr>at := AtStore, loaded := Downloaded (status (shared m))\<rparr>)\<rparr>)"
| "exec (Store k) m =
     (let g = fetchers m k in
      if at g \<noteq> AtStore then m
      else
        m\<lparr>shared := (shared m)
              \<lparr>status := (status (shared m))\<lparr>Downloaded := wrap64 (loaded g + bufSize g)\<rparr>\<rparr>,
          fetchers := (fetchers m)(k := g\<lparr>at := AtAdvance\<rparr>)\<rparr>)"
| "exec (Advance k) m =
     (let g = fetchers m k in
      if at g \<noteq> AtAdvance then m
      else
        m\<lparr>shared := (shared m)
              \<lparr>BlockList := (BlockList (shared m))
                 [k := (BlockList (shared m) ! k)
                    \<lparr>Begin := Begin (BlockList (shared m) ! k) + bufSize g\<rparr>]\<rparr>,
          fetchers := (fetchers m)
            (k := g\<lparr>at := (case e_local g of None \<Rightarrow> AtRead | Some x \<Rightarrow> Gone)\<rparr>)\<rparr>)"
| "exec CallStart m = m\<lparr>shared := fire OnStart (plan (shared m))\<rparr>"
| "exec CallPause m = m\<lparr>shared := Pause (shared m)\<rparr>"
| "exec CallResume m = m\<lparr>shared := Resume_head (shared m)\<rparr>"
| "exec Launch m = m\<lparr>shared := startGetSpeeds (shared m)\<rparr>"
| "exec (Sample old) m = m\<lparr>shared := snd (getSpeeds_iter old (shared m))\<rparr>"
| "exec (Retry err) m = m\<lparr>shared := fire (OnError 0 err) (shared m)\<rparr>"
| "exec Decide m = m\<lparr>shared := download_tail (shared m)\<rparr>"





text \<open>
  The same attempt with a sink that never fails, and a file without its sink: two runs
  that agree on these differ by nothing but what reached the sink.
\<close>

fun sink_ok :: "event \<Rightarrow> event" where
  "sink_ok (Read data e werr) = Read data e None"
| "sink_ok PauseCall = PauseCall"

fun writes_succeed :: "attempt \<Rightarrow> attempt" where
  "writes_succeed (NewRequestFails err) = NewRequestFails err"
| "writes_succeed (DoFails err) = DoFails err"
| "writes_succeed (Response body) = Response (map sink_ok body)"

definition forget_Stream :: "File \<Rightarrow> File" where
  "forget_Stream f = f\<lparr>Stream := []\<rparr>"

subsection \<open>Properties of the plan\<close>

lemma plan_loop_unrolled:
  "plan_loop bs 0 0 bl =
     bl @ [\<lparr>Begin = 0, End = bs\<rparr>, \<lparr>Begin = bs + 1, End = 2 * bs\<rparr>,
           \<lparr>Begin = 2 * bs + 1, End = 3 * bs\<rparr>, \<lparr>Begin = 3 * bs + 1, End = 4 * bs\<rparr>,
           \<lparr>Begin = 4 * bs + 1, End = 5 * bs\<rparr>]"
proof -
  have s: "\<And>i b l. plan_loop bs i b l =
      (if i < 5 then plan_loop bs (i + 1) ((int i + 1) * bs + 1)
                       (l @ [\<lparr>Begin = b, End = (int i + 1) * bs\<rparr>]) else l)"
    by (subst plan_loop.simps) (simp add: MaxThread_def Let_def)
  show ?thesis
    apply (subst s, simp)
    apply (subst s, simp)
    apply (subst s, simp)
    apply (subst s, simp)
    apply (subst s, simp)
    apply (subst s, simp)
    done
qed

lemma plan_known_size:
  assumes "0 < Size f" and "BlockList f = []"
  shows "BlockList (plan f) =
     [\<lparr>Begin = 0, End = Size f div 5\<rparr>,
      \<lparr>Begin = Size f div 5 + 1, End = 2 * (Size f div 5)\<rparr>,
      \<lparr>Begin = 2 * (Size f div 5) + 1, End = 3 * (Size f div 5)\<rparr>,
      \<lparr>Begin = 3 * (Size f div 5) + 1, End = 4 * (Size f div 5)\<rparr>,
      \<lparr>Begin = 4 * (Size f div 5) + 1, End = Size f\<rparr>]"
  using assms by (simp add: plan_def plan_loop_unrolled MaxThread_def Let_def)

text \<open>
  Claim C1: for a total size \<open>S > 0\<close> the plan of the first \<^verbatim>\<open>Start\<close> consists of
  contiguous inclusive ranges whose union is exactly \<open>[0, S)\<close>, every block but the last of
  the floor size, the last \<^verbatim>\<open>End\<close> being byte \<open>S - 1\<close>. The code is evaluated at
  \<open>S = 100000\<close>: the ranges are contiguous (each \<^verbatim>\<open>Begin\<close> is the \<^verbatim>\<open>End\<close> before it plus
  one), but the first block holds \<open>20001\<close> bytes, not \<open>20000\<close>, and the last \<^verbatim>\<open>End\<close> is
  \<open>100000 = S\<close>, one byte past the resource, not \<open>S - 1\<close>. By \<open>plan_known_size\<close> it is so
  for every \<open>S > 0\<close>.
\<close>

theorem Start_plan_100000:
  "BlockList (plan (New ''http://host/file'' 100000)) =
     [\<lparr>Begin = 0, End = 20000\<rparr>, \<lparr>Begin = 20001, End = 40000\<rparr>,
      \<lparr>Begin = 40001, End = 60000\<rparr>, \<lparr>Begin = 60001, End = 80000\<rparr>,
      \<lparr>Begin = 80001, End = 100000\<rparr>]"
  by (simp add: plan_def plan_loop_unrolled MaxThread_def Let_def New_def)

subsection \<open>The fan-in of \<^verbatim>\<open>download\<close>\<close>

lemma await_le: "await n sent = (n \<le> sent)"
proof (induction n arbitrary: sent)
  case 0
  show ?case by simp
next
  case (Suc n)
  show ?case
  proof (cases sent)
    case 0
    then show ?thesis by simp
  next
    case (Suc m)
    then show ?thesis using Suc.IH [of m] by simp
  qed
qed

lemma length_spawn: "length (fst (spawn ids env f)) \<le> length ids"
proof (induction ids arbitrary: f)
  case Nil
  then show ?case by simp
next
  case (Cons a ids)
  obtain r f' where a: "fetcher a (script env a) f = (r, f')"
    by (cases "fetcher a (script env a) f")
  obtain rs f'' where b: "spawn ids env f' = (rs, f'')"
    by (cases "spawn ids env f'")
  from Cons [of f'] b have "length rs \<le> length ids" by simp
  then show ?case by (simp add: a b)
qed

text \<open>With fewer than \<^verbatim>\<open>MaxThread\<close> blocks the receive loop never gets its last value.\<close>

lemma download_few_blocks:
  assumes "length (BlockList f) < MaxThread"
  shows "fst (download env f) = Blocked \<or> fst (download env f) = Crashed"
proof -
  obtain ends f' where s: "spawn [0..<length (BlockList f)] env (startGetSpeeds f) = (ends, f')"
    by (cases "spawn [0..<length (BlockList f)] env (startGetSpeeds f)")
  have "length ends \<le> length (BlockList f)"
    using length_spawn [of "[0..<length (BlockList f)]" env "startGetSpeeds f"] s by simp
  moreover have "length (filter (\<lambda>r. r = Completed) ends) \<le> length ends" by simp
  ultimately have "\<not> MaxThread \<le> length (filter (\<lambda>r. r = Completed) ends)"
    using assms by linarith
  then show ?thesis
    by (simp add: download_def s await_le)
qed

text \<open>
  Claim C2: \<^verbatim>\<open>download\<close> waits for exactly one completion per block of the list, so for the
  plan made of the single block of unknown size it waits for one. The code receives
  \<^verbatim>\<open>MaxThread\<close> values whatever the length of the list. Evaluated for a resource of unknown
  size (content length \<open>-1\<close>) whose single fetch succeeds: the plan is the one block
  \<open>{0, -1}\<close>, its goroutine completes and sends its one value, and \<^verbatim>\<open>download\<close> stays in
  the receive loop: it never returns and fires neither \<^verbatim>\<open>onPause\<close> nor \<^verbatim>\<open>onFinish\<close>.
\<close>

theorem download_single_block_never_returns:
  "BlockList (plan (New ''http://host/file'' (- 1))) = [\<lparr>Begin = 0, End = - 1\<rparr>] \<and>
   fst (spawn [0 ..< 1] [[Response [Read [1, 2, 3] (Some EOF) None]]]
         (startGetSpeeds (plan (New ''http://host/file'' (- 1))))) = [Completed] \<and>
   fst (download [[Response [Read [1, 2, 3] (Some EOF) None]]]
         (plan (New ''http://host/file'' (- 1)))) = Blocked \<and>
   calls (snd (download [[Response [Read [1, 2, 3] (Some EOF) None]]]
         (plan (New ''http://host/file'' (- 1))))) = []"
  by (simp add: plan_def New_def download_def startGetSpeeds_def script_def send_def
        downloadBlock_iter_def needSize_def WriteAt_def Let_def MaxThread_def await_le)

subsection \<open>The chunk loop\<close>

lemma WriteAt_fields [simp]:
  "BlockList (WriteAt b off werr f) = BlockList f"
  "status (WriteAt b off werr f) = status f"
  "paused (WriteAt b off werr f) = paused f"
  "calls (WriteAt b off werr f) = calls f"
  "requests (WriteAt b off werr f) = requests f"
  "monitors (WriteAt b off werr f) = monitors f"
  "Stream (WriteAt b off werr f) = Stream f @ (case werr of None \<Rightarrow> [(off, b)] | Some x \<Rightarrow> [])"
  by (simp_all add: WriteAt_def split: option.splits)

lemma credit_fields [simp]:
  "Stream (credit k n f) = Stream f"
  "paused (credit k n f) = paused f"
  "calls (credit k n f) = calls f"
  "requests (credit k n f) = requests f"
  "monitors (credit k n f) = monitors f"
  "Downloaded (status (credit k n f)) = Downloaded (status f) + n"
  "Speeds (status (credit k n f)) = Speeds (status f)"
  "length (BlockList (credit k n f)) = length (BlockList f)"
  by (simp_all add: credit_def)

lemma credit_block:
  "k < length (BlockList f) \<Longrightarrow>
     BlockList (credit k n f) ! j =
       (if j = k then (BlockList f ! k)\<lparr>Begin := Begin (BlockList f ! k) + n\<rparr> else BlockList f ! j)"
  by (simp add: credit_def nth_list_update)

lemma iter_cut:
  assumes "end \<noteq> - 1" and "needSize k f < int (length data)" and "0 \<le> needSize k f"
  shows "downloadBlock_iter end k data e werr f =
     (Some (Ret None),
      credit k (needSize k f)
        (WriteAt (take (nat (needSize k f)) data) (Begin (BlockList f ! k)) werr f))"
  using assms by (simp add: downloadBlock_iter_def credit_def Let_def)

lemma iter_panic:
  assumes "end \<noteq> - 1" and "needSize k f < 0"
  shows "downloadBlock_iter end k data e werr f = (Some Panic, f)"
  using assms by (simp add: downloadBlock_iter_def Let_def)

lemma iter_whole:
  assumes "end = - 1 \<or> int (length data) \<le> needSize k f"
  shows "downloadBlock_iter end k data e werr f =
     (after e, credit k (int (length data)) (WriteAt data (Begin (BlockList f ! k)) werr f))"
  using assms by (auto simp add: downloadBlock_iter_def credit_def Let_def after_def split: option.splits)

lemma within_simps [simp]:
  "within end []"
  "within end (w # ws) = (fst w + int (length (snd w)) \<le> end + 1 \<and> within end ws)"
  "within end (ws @ vs) = (within end ws \<and> within end vs)"
  by (auto simp: within_def split: prod.splits)

lemma iter_within:
  assumes k: "k < length (BlockList f)" and e: "End (BlockList f ! k) = end" and b: "end \<noteq> - 1"
    and it: "downloadBlock_iter end k data e werr f = (r, f')"
  shows "\<exists>ws. Stream f' = Stream f @ ws \<and> within end ws"
    and "length (BlockList f') = length (BlockList f)"
    and "End (BlockList f' ! k) = end"
proof -
  consider (panic) "needSize k f < 0"
    | (cut) "0 \<le> needSize k f" "needSize k f < int (length data)"
    | (whole) "int (length data) \<le> needSize k f"
    by linarith
  then have "(\<exists>ws. Stream f' = Stream f @ ws \<and> within end ws) \<and>
      length (BlockList f') = length (BlockList f) \<and> End (BlockList f' ! k) = end"
  proof cases
    case panic
    with it b e show ?thesis by (simp add: iter_panic)
  next
    case cut
    with it b have f': "f' = credit k (needSize k f)
        (WriteAt (take (nat (needSize k f)) data) (Begin (BlockList f ! k)) werr f)"
      by (simp add: iter_cut)
    have "Begin (BlockList f ! k) + needSize k f \<le> end + 1"
      using e by (simp add: needSize_def)
    with cut k e show ?thesis
      by (cases werr) (auto simp: f' credit_block min_def)
  next
    case whole
    with it have f': "f' = credit k (int (length data))
        (WriteAt data (Begin (BlockList f ! k)) werr f)"
      by (simp add: iter_whole)
    have "Begin (BlockList f ! k) + int (length data) \<le> end + 1"
      using e whole by (simp add: needSize_def)
    with k e show ?thesis
      by (cases werr) (simp_all add: f' credit_block)
  qed
  then show "\<exists>ws. Stream f' = Stream f @ ws \<and> within end ws"
    and "length (BlockList f') = length (BlockList f)"
    and "End (BlockList f' ! k) = end"
    by blast+
qed

lemma Pause_fields [simp]:
  "BlockList (Pause f) = BlockList f" "Stream (Pause f) = Stream f"
  "status (Pause f) = status f" "paused (Pause f)"
  "calls (Pause f) = calls f" "requests (Pause f) = requests f"
  "monitors (Pause f) = monitors f"
  by (simp_all add: Pause_def)

lemma loop_within:
  assumes "k < length (BlockList f)" and "End (BlockList f ! k) = end" and "end \<noteq> - 1"
    and "downloadBlock_loop end k evs f = (r, f', rest)"
  shows "\<exists>ws. Stream f' = Stream f @ ws \<and> within end ws"
  using assms
proof (induction "end" k evs f rule: downloadBlock_loop.induct)
  case (1 "end" k f)
  then show ?case by (auto split: if_splits)
next
  case (2 "end" k evs f)
  then show ?case by simp
next
  case (3 "end" k data e werr evs f)
  show ?case
  proof (cases "paused f")
    case True
    with 3 show ?thesis by simp
  next
    case False
    obtain r1 f1 where it: "downloadBlock_iter end k data e werr f = (r1, f1)"
      by (cases "downloadBlock_iter end k data e werr f")
    note iw = iter_within [OF "3.prems"(1) "3.prems"(2) "3.prems"(3) it]
    from iw(1) obtain ws where ws: "Stream f1 = Stream f @ ws" "within end ws" by blast
    show ?thesis
    proof (cases r1)
      case None
      with 3 False it iw have "\<exists>vs. Stream f' = Stream f1 @ vs \<and> within end vs"
        by simp
      then obtain vs where "Stream f' = Stream f1 @ vs" "within end vs" by blast
      with ws show ?thesis by simp
    next
      case (Some r2)
      with "3.prems" False it have "f' = f1" by simp
      with ws show ?thesis by blast
    qed
  qed
qed

lemma downloadBlock_within:
  assumes "k < length (BlockList f)" and "End (BlockList f ! k) \<noteq> - 1"
  shows "\<exists>ws. Stream (snd (downloadBlock k a f)) = Stream f @ ws \<and> within (End (BlockList f ! k)) ws"
proof (cases a)
  case (NewRequestFails err)
  then show ?thesis by simp
next
  case (DoFails err)
  with assms show ?thesis by (simp add: send_def Let_def)
next
  case (Response body)
  obtain r f' rest where l:
    "downloadBlock_loop (End (BlockList f ! k)) k body (send k f) = (r, f', rest)"
    by (cases "downloadBlock_loop (End (BlockList f ! k)) k body (send k f)")
  have "\<exists>ws. Stream f' = Stream (send k f) @ ws \<and> within (End (BlockList f ! k)) ws"
    by (rule loop_within [OF _ _ assms(2) l]) (use assms in \<open>simp_all add: send_def Let_def\<close>)
  with assms Response l show ?thesis by (simp add: send_def Let_def)
qed

lemma loop_cut:
  assumes "k < length (BlockList f)" and "End (BlockList f ! k) \<noteq> - 1"
    and "\<not> paused f" and "0 \<le> needSize k f" and "needSize k f < int (length data)"
  shows "downloadBlock_loop (End (BlockList f ! k)) k (Read data e werr # evs) f =
     (Ret None,
      credit k (needSize k f)
        (WriteAt (take (nat (needSize k f)) data) (Begin (BlockList f ! k)) werr f),
      evs)"
  using assms by (simp add: iter_cut)

lemma downloadBlock_cut:
  assumes "k < length (BlockList f)" and "End (BlockList f ! k) \<noteq> - 1"
    and "\<not> paused f" and "0 \<le> needSize k f" and "needSize k f < int (length data)"
  shows "downloadBlock k (Response (Read data e werr # evs)) f =
     (Ret None,
      credit k (needSize k f)
        (WriteAt (take (nat (needSize k f)) data) (Begin (BlockList f ! k)) werr (send k f)))"
proof -
  have "needSize k (send k f) = needSize k f" "Begin (BlockList (send k f) ! k) = Begin (BlockList f ! k)"
    "End (BlockList (send k f) ! k) = End (BlockList f ! k)" "\<not> paused (send k f)"
    "k < length (BlockList (send k f))"
    using assms by (simp_all add: needSize_def send_def Let_def)
  with loop_cut [of k "send k f" data e werr evs] assms show ?thesis by simp
qed

lemma downloadBlock_whole:
  assumes "k < length (BlockList f)" and "\<not> paused f" and "int (length data) \<le> needSize k f"
  shows "downloadBlock k (Response (Read data (Some err) werr # evs)) f =
     (Ret (if err = EOF then None else Some err),
      credit k (int (length data)) (WriteAt data (Begin (BlockList f ! k)) werr (send k f)))"
proof -
  have s: "needSize k (send k f) = needSize k f" "Begin (BlockList (send k f) ! k) = Begin (BlockList f ! k)"
    "\<not> paused (send k f)"
    using assms by (simp_all add: needSize_def send_def Let_def)
  have "downloadBlock_iter (End (BlockList f ! k)) k data (Some err) werr (send k f) =
     (after (Some err), credit k (int (length data)) (WriteAt data (Begin (BlockList f ! k)) werr (send k f)))"
    using iter_whole [of "End (BlockList f ! k)" data k "send k f" "Some err" werr] assms s by simp
  with assms s show ?thesis by (simp add: after_def)
qed

text \<open>
  Claim C3: for a block with \<^verbatim>\<open>End\<close> other than \<open>-1\<close>, \<^verbatim>\<open>downloadBlock\<close> never writes past
  offset \<^verbatim>\<open>End\<close>: every write of a fetch ends at or before \<^verbatim>\<open>End\<close>; and when a read yields
  more bytes than the block is still owed (\<open>End + 1 - Begin\<close>), \<^verbatim>\<open>downloadBlock\<close> writes exactly
  that many bytes, at the current \<^verbatim>\<open>Begin\<close>, moves \<^verbatim>\<open>Begin\<close> to \<open>End + 1\<close> and returns \<^verbatim>\<open>nil\<close>
  there, whatever error the read reported and without reading on (the chunk loop hands
  back the rest of the script untouched). A chunk that fits is written whole at
  \<^verbatim>\<open>Begin\<close>, and then the error of the read decides. (The bytes owed are not negative:
  \<^verbatim>\<open>Begin\<close> is at most \<open>End + 1\<close> in every block of a plan, see \<open>plan_needSize\<close> and
  \<open>iter_needSize\<close>.)
\<close>

theorem downloadBlock_never_writes_past_End:
  assumes "k < length (BlockList f)" and "End (BlockList f ! k) \<noteq> - 1"
  shows "(\<forall>a. \<exists>ws. Stream (snd (downloadBlock k a f)) = Stream f @ ws \<and>
              within (End (BlockList f ! k)) ws) \<and>
         (\<forall>data e werr evs.
            \<not> paused f \<longrightarrow> 0 \<le> needSize k f \<longrightarrow> needSize k f < int (length data) \<longrightarrow>
            (case downloadBlock k (Response (Read data e werr # evs)) f of
               (r, f') \<Rightarrow>
                 r = Ret None \<and>
                 Stream f' = Stream f @
                   (case werr of
                      None \<Rightarrow> [(Begin (BlockList f ! k), take (nat (needSize k f)) data)]
                    | Some x \<Rightarrow> []) \<and>
                 BlockList f' = (BlockList f)[k := (BlockList f ! k)\<lparr>Begin := End (BlockList f ! k) + 1\<rparr>] \<and>
                 Downloaded (status f') = Downloaded (status f) + needSize k f)) \<and>
         (\<forall>data e werr evs.
            \<not> paused f \<longrightarrow> 0 \<le> needSize k f \<longrightarrow> needSize k f < int (length data) \<longrightarrow>
            (case downloadBlock_loop (End (BlockList f ! k)) k (Read data e werr # evs) f of
               (r, f', rest) \<Rightarrow>
                 r = Ret None \<and> rest = evs \<and>
                 Stream f' = Stream f @
                   (case werr of
                      None \<Rightarrow> [(Begin (BlockList f ! k), take (nat (needSize k f)) data)]
                    | Some x \<Rightarrow> []) \<and>
                 Begin (BlockList f' ! k) = End (BlockList f ! k) + 1 \<and>
                 Downloaded (status f') = Downloaded (status f) + needSize k f)) \<and>
         (\<forall>data err werr evs.
            \<not> paused f \<longrightarrow> int (length data) \<le> needSize k f \<longrightarrow>
            (case downloadBlock k (Response (Read data (Some err) werr # evs)) f of
               (r, f') \<Rightarrow>
                 r = Ret (if err = EOF then None else Some err) \<and>
                 Stream f' = Stream f @
                   (case werr of None \<Rightarrow> [(Begin (BlockList f ! k), data)] | Some x \<Rightarrow> []) \<and>
                 BlockList f' = (BlockList f)
                   [k := (BlockList f ! k)\<lparr>Begin := Begin (BlockList f ! k) + int (length data)\<rparr>] \<and>
                 Downloaded (status f') = Downloaded (status f) + int (length data)))"
proof -
  have b: "Begin (BlockList f ! k) + needSize k f = End (BlockList f ! k) + 1"
    by (simp add: needSize_def)
  have s: "Stream (send k f) = Stream f" "BlockList (send k f) = BlockList f"
    "status (send k f) = status f"
    by (simp_all add: send_def Let_def)
  show ?thesis
    using assms downloadBlock_within [OF assms] b s
    by (simp add: loop_cut downloadBlock_cut downloadBlock_whole credit_block credit_def
        del: downloadBlock_loop.simps downloadBlock.simps)
qed

theorem downloadBlock_never_writes_past_End_witness:
  "0 < length (BlockList ((New ''u'' 10)\<lparr>BlockList := [\<lparr>Begin = 0, End = 3\<rparr>]\<rparr>)) \<and>
   End (BlockList ((New ''u'' 10)\<lparr>BlockList := [\<lparr>Begin = 0, End = 3\<rparr>]\<rparr>) ! 0) \<noteq> - 1 \<and>
   (\<exists>ws. Stream (snd (downloadBlock 0 (Response [Read [1, 2, 3, 4, 5, 6] None None])
              ((New ''u'' 10)\<lparr>BlockList := [\<lparr>Begin = 0, End = 3\<rparr>]\<rparr>))) =
            Stream ((New ''u'' 10)\<lparr>BlockList := [\<lparr>Begin = 0, End = 3\<rparr>]\<rparr>) @ ws \<and>
          within (End (BlockList ((New ''u'' 10)\<lparr>BlockList := [\<lparr>Begin = 0, End = 3\<rparr>]\<rparr>) ! 0)) ws) \<and>
   fst (downloadBlock 0 (Response (Read [1, 2, 3, 4, 5, 6] (Some NetError) None # [Read [7] None None]))
         ((New ''u'' 10)\<lparr>BlockList := [\<lparr>Begin = 0, End = 3\<rparr>]\<rparr>)) = Ret None \<and>
   downloadBlock 0 (Response [Read [1, 2, 3, 4, 5, 6] (Some NetError) None, Read [7] None None])
       ((New ''u'' 10)\<lparr>BlockList := [\<lparr>Begin = 0, End = 3\<rparr>]\<rparr>) =
     (Ret None,
      (New ''u'' 10)\<lparr>BlockList := [\<lparr>Begin = 4, End = 3\<rparr>], Stream := [(0, [1, 2, 3, 4])],
         status := \<lparr>Downloaded = 4, Speeds = 0\<rparr>, requests := [Some (0, 3)]\<rparr>) \<and>
   downloadBlock 0 (Response [Read [1, 2] None None, Read [3, 4, 5] None None, Read [7] None None])
       ((New ''u'' 10)\<lparr>BlockList := [\<lparr>Begin = 0, End = 3\<rparr>]\<rparr>) =
     (Ret None,
      (New ''u'' 10)\<lparr>BlockList := [\<lparr>Begin = 4, End = 3\<rparr>], Stream := [(0, [1, 2]), (2, [3, 4])],
         status := \<lparr>Downloaded = 4, Speeds = 0\<rparr>, requests := [Some (0, 3)]\<rparr>)"
proof -
  let ?F = "(New ''u'' 10)\<lparr>BlockList := [\<lparr>Begin = 0, End = 3\<rparr>]\<rparr>"
  have h1: "0 < length (BlockList ?F)" by simp
  have h2: "End (BlockList ?F ! 0) \<noteq> - 1" by simp
  note t = downloadBlock_never_writes_past_End [OF h1 h2]
  from t have a: "\<exists>ws. Stream (snd (downloadBlock 0 (Response [Read [1, 2, 3, 4, 5, 6] None None]) ?F)) =
            Stream ?F @ ws \<and> within (End (BlockList ?F ! 0)) ws"
    by blast
  have p: "\<not> paused ?F" "0 \<le> needSize 0 ?F" "needSize 0 ?F < int (length [1, 2, 3, 4, 5, 6 :: byte])"
    by (simp_all add: New_def needSize_def)
  from t have "\<forall>data e werr evs.
            \<not> paused ?F \<longrightarrow> 0 \<le> needSize 0 ?F \<longrightarrow> needSize 0 ?F < int (length data) \<longrightarrow>
            (case downloadBlock 0 (Response (Read data e werr # evs)) ?F of
               (r, f') \<Rightarrow>
                 r = Ret None \<and>
                 Stream f' = Stream ?F @
                   (case werr of
                      None \<Rightarrow> [(Begin (BlockList ?F ! 0), take (nat (needSize 0 ?F)) data)]
                    | Some x \<Rightarrow> []) \<and>
                 BlockList f' = (BlockList ?F)[0 := (BlockList ?F ! 0)\<lparr>Begin := End (BlockList ?F ! 0) + 1\<rparr>] \<and>
                 Downloaded (status f') = Downloaded (status ?F) + needSize 0 ?F)"
    by (rule conjunct1 [OF conjunct2])
  from this [THEN spec, of "[1, 2, 3, 4, 5, 6]", THEN spec, of "Some NetError", THEN spec, of None,
      THEN spec, of "[Read [7] None None]"] p
  have c: "fst (downloadBlock 0 (Response (Read [1, 2, 3, 4, 5, 6] (Some NetError) None # [Read [7] None None])) ?F) = Ret None"
    by (simp add: split_beta del: downloadBlock.simps)
  have b: "downloadBlock 0 (Response [Read [1, 2, 3, 4, 5, 6] (Some NetError) None, Read [7] None None]) ?F =
     (Ret None,
      (New ''u'' 10)\<lparr>BlockList := [\<lparr>Begin = 4, End = 3\<rparr>], Stream := [(0, [1, 2, 3, 4])],
         status := \<lparr>Downloaded = 4, Speeds = 0\<rparr>, requests := [Some (0, 3)]\<rparr>)"
    by (simp add: New_def downloadBlock_iter_def needSize_def WriteAt_def send_def Let_def)
  have d: "downloadBlock 0 (Response [Read [1, 2] None None, Read [3, 4, 5] None None, Read [7] None None]) ?F =
     (Ret None,
      (New ''u'' 10)\<lparr>BlockList := [\<lparr>Begin = 4, End = 3\<rparr>], Stream := [(0, [1, 2]), (2, [3, 4])],
         status := \<lparr>Downloaded = 4, Speeds = 0\<rparr>, requests := [Some (0, 3)]\<rparr>)"
    by (simp add: New_def downloadBlock_iter_def needSize_def WriteAt_def send_def Let_def)
  from h1 h2 a c b d show ?thesis by (intro conjI)
qed

lemma Pause_paused: "paused f \<Longrightarrow> Pause f = f"
  by (simp add: Pause_def)

lemma loop_paused:
  assumes "paused f"
  shows "downloadBlock_loop end k evs f = (Ret None, f, dropWhile (\<lambda>ev. ev = PauseCall) evs)"
  using assms
proof (induction evs)
  case Nil
  then show ?case by simp
next
  case (Cons ev evs)
  then show ?case by (cases ev) (simp_all add: Pause_paused)
qed

lemma iter_not_Stalled: "fst (downloadBlock_iter end k data e werr f) \<noteq> Some Stalled"
  by (simp add: downloadBlock_iter_def Let_def split: option.splits)

text \<open>
  A call of \<^verbatim>\<open>Pause\<close> after any number of passes: when the loop gets through \<open>pre\<close> and would
  go on reading, the same script followed by \<open>PauseCall\<close> ends at that point.
\<close>

lemma loop_then_Pause:
  assumes "downloadBlock_loop end k pre f = (Stalled, f1, rest)"
  shows "downloadBlock_loop end k (pre @ PauseCall # evs) f =
           (Ret None, Pause f1, dropWhile (\<lambda>ev. ev = PauseCall) evs)"
  using assms
proof (induction "end" k pre f rule: downloadBlock_loop.induct)
  case (1 "end" k f)
  then have "f1 = f" by (simp split: if_splits)
  then show ?case by (simp add: loop_paused)
next
  case (2 "end" k evs' f)
  then show ?case by simp
next
  case (3 "end" k data e werr evs' f)
  from "3.prems" have np: "\<not> paused f" by (auto split: if_splits)
  obtain r1 f2 where it: "downloadBlock_iter end k data e werr f = (r1, f2)"
    by (cases "downloadBlock_iter end k data e werr f")
  show ?case
  proof (cases r1)
    case None
    with "3.prems" np it have "downloadBlock_loop end k evs' f2 = (Stalled, f1, rest)" by simp
    from "3.IH" [OF np it [symmetric] None this] np it None show ?thesis by simp
  next
    case (Some r)
    with "3.prems" np it have "r = Stalled" by simp
    with Some it iter_not_Stalled [of "end" k data e werr f] show ?thesis by simp
  qed
qed

text \<open>
  Claim C6: the chunk loop tests \<^verbatim>\<open>f.paused\<close> before every read. Entered with the flag
  set, it returns \<^verbatim>\<open>nil\<close> at once: no read is taken from the stream, nothing is written,
  and the file, with the \<^verbatim>\<open>Begin\<close> of the block, is as it was. When \<^verbatim>\<open>Pause\<close> is called in
  the middle of a fetch, after the passes of \<open>pre\<close>, the loop returns \<^verbatim>\<open>nil\<close> at its next
  test: the file is the one those passes left, with the flag set, and none of the reads
  that the stream still offers is taken. Both hold of \<^verbatim>\<open>downloadBlock\<close>, which sends
  its request first.
\<close>

theorem downloadBlock_loop_paused:
  "(paused f \<longrightarrow>
      downloadBlock_loop end k evs f = (Ret None, f, dropWhile (\<lambda>ev. ev = PauseCall) evs)) \<and>
   (downloadBlock_loop end k pre f = (Stalled, f1, rest) \<longrightarrow>
      downloadBlock_loop end k (pre @ PauseCall # evs) f =
        (Ret None, Pause f1, dropWhile (\<lambda>ev. ev = PauseCall) evs)) \<and>
   (k < length (BlockList f) \<longrightarrow> paused f \<longrightarrow>
      downloadBlock k (Response evs) f = (Ret None, send k f)) \<and>
   (k < length (BlockList f) \<longrightarrow>
    downloadBlock_loop (End (BlockList f ! k)) k pre (send k f) = (Stalled, f1, rest) \<longrightarrow>
      downloadBlock k (Response (pre @ PauseCall # evs)) f = (Ret None, Pause f1))"
proof -
  have "paused f \<Longrightarrow> paused (send k f)"
    by (simp add: send_def Let_def)
  then show ?thesis
    by (simp add: loop_paused loop_then_Pause del: downloadBlock_loop.simps)
qed

theorem downloadBlock_loop_paused_witness:
  "downloadBlock_loop 9 0 [Read [1, 2, 3] None None, Read [4] (Some EOF) None]
       (Pause ((New ''u'' 10)\<lparr>BlockList := [\<lparr>Begin = 2, End = 9\<rparr>]\<rparr>)) =
     (Ret None, (New ''u'' 10)\<lparr>BlockList := [\<lparr>Begin = 2, End = 9\<rparr>], paused := True\<rparr>,
      [Read [1, 2, 3] None None, Read [4] (Some EOF) None]) \<and>
   downloadBlock_loop 9 0 [Read [1] None None]
       ((New ''u'' 10)\<lparr>BlockList := [\<lparr>Begin = 2, End = 9\<rparr>]\<rparr>) =
     (Stalled,
      (New ''u'' 10)\<lparr>BlockList := [\<lparr>Begin = 3, End = 9\<rparr>], Stream := [(2, [1])],
         status := \<lparr>Downloaded = 1, Speeds = 0\<rparr>\<rparr>, []) \<and>
   downloadBlock_loop 9 0
       ([Read [1] None None] @ PauseCall # [Read [2, 3] None None, Read [4] (Some EOF) None])
       ((New ''u'' 10)\<lparr>BlockList := [\<lparr>Begin = 2, End = 9\<rparr>]\<rparr>) =
     (Ret None,
      Pause ((New ''u'' 10)\<lparr>BlockList := [\<lparr>Begin = 3, End = 9\<rparr>], Stream := [(2, [1])],
         status := \<lparr>Downloaded = 1, Speeds = 0\<rparr>\<rparr>),
      dropWhile (\<lambda>ev. ev = PauseCall) [Read [2, 3] None None, Read [4] (Some EOF) None]) \<and>
   downloadBlock 0 (Response [Read [1] None None, PauseCall, Read [2, 3] None None,
                               Read [4] (Some EOF) None])
       ((New ''u'' 10)\<lparr>BlockList := [\<lparr>Begin = 2, End = 9\<rparr>]\<rparr>) =
     (Ret None,
      (New ''u'' 10)\<lparr>BlockList := [\<lparr>Begin = 3, End = 9\<rparr>], Stream := [(2, [1])],
         status := \<lparr>Downloaded = 1, Speeds = 0\<rparr>, requests := [Some (2, 9)], paused := True\<rparr>)"
proof -
  let ?F = "(New ''u'' 10)\<lparr>BlockList := [\<lparr>Begin = 2, End = 9\<rparr>]\<rparr>"
  let ?G = "(New ''u'' 10)\<lparr>BlockList := [\<lparr>Begin = 3, End = 9\<rparr>], Stream := [(2, [1])],
         status := \<lparr>Downloaded = 1, Speeds = 0\<rparr>\<rparr>"
  let ?rest = "[Read [2, 3] None None, Read [4] (Some EOF) None]"
  have p: "paused (Pause ?F)" by simp
  have a: "downloadBlock_loop 9 0 [Read [1, 2, 3] None None, Read [4] (Some EOF) None] (Pause ?F) =
     (Ret None, (New ''u'' 10)\<lparr>BlockList := [\<lparr>Begin = 2, End = 9\<rparr>], paused := True\<rparr>,
      [Read [1, 2, 3] None None, Read [4] (Some EOF) None])"
    using downloadBlock_loop_paused
      [of "Pause ?F" 9 0 "[Read [1, 2, 3] None None, Read [4] (Some EOF) None]"] p
    by (simp add: New_def Pause_def)
  have s: "downloadBlock_loop 9 0 [Read [1] None None] ?F = (Stalled, ?G, [])"
    by (simp add: New_def downloadBlock_iter_def needSize_def WriteAt_def Let_def)
  from downloadBlock_loop_paused [of ?F 9 0 ?rest "[Read [1] None None]" ?G "[]"] s
  have b: "downloadBlock_loop 9 0 ([Read [1] None None] @ PauseCall # ?rest) ?F =
     (Ret None, Pause ?G, dropWhile (\<lambda>ev. ev = PauseCall) ?rest)"
    by blast
  have c: "downloadBlock 0 (Response [Read [1] None None, PauseCall, Read [2, 3] None None,
                               Read [4] (Some EOF) None]) ?F =
     (Ret None,
      (New ''u'' 10)\<lparr>BlockList := [\<lparr>Begin = 3, End = 9\<rparr>], Stream := [(2, [1])],
         status := \<lparr>Downloaded = 1, Speeds = 0\<rparr>, requests := [Some (2, 9)], paused := True\<rparr>)"
    by (simp add: New_def downloadBlock_iter_def needSize_def WriteAt_def send_def Pause_def Let_def)
  from a s b c show ?thesis by (intro conjI)
qed

subsection \<open>The bytes owed are never negative\<close>

text \<open>
  In a plan made by \<^verbatim>\<open>Start\<close> for a known size every block has \<^verbatim>\<open>Begin\<close> at most
  \<open>End + 1\<close>, and a pass of the chunk loop keeps it so.
\<close>

lemma plan_needSize:
  assumes "0 < Size f" and "BlockList f = []" and "k < length (BlockList (plan f))"
  shows "0 \<le> needSize k (plan f)"
proof -
  have d: "0 \<le> Size f div 5" "5 * (Size f div 5) \<le> Size f"
    using assms(1) by simp_all
  have "k < 5" using assms by (simp add: plan_known_size)
  then consider "k = 0" | "k = 1" | "k = 2" | "k = 3" | "k = 4" by linarith
  then show ?thesis
    using d by cases (simp_all add: needSize_def plan_known_size [OF assms(1,2)])
qed

lemma iter_needSize:
  assumes "k < length (BlockList f)" and "end \<noteq> - 1" and "0 \<le> needSize k f"
    and "downloadBlock_iter end k data e werr f = (r, f')"
  shows "0 \<le> needSize k f'"
proof (cases "needSize k f < int (length data)")
  case True
  with assms show ?thesis by (auto simp: iter_cut needSize_def credit_block)
next
  case False
  with assms show ?thesis by (auto simp: iter_whole needSize_def credit_block)
qed

subsection \<open>\<^verbatim>\<open>Resume\<close> before any \<^verbatim>\<open>Start\<close>\<close>

text \<open>
  Claim C5: \<^verbatim>\<open>Resume\<close> on a transfer whose \<^verbatim>\<open>BlockList\<close> is empty fails with the no-blocks
  error and starts no fetcher: the error callback is invoked with that error and nothing
  else happens. The callback log gains that one entry (so \<^verbatim>\<open>onResume\<close> does not fire), and
  no request is sent, no monitor launched, nothing written: apart from the flag and the
  log the file is as before.
\<close>

theorem Resume_without_blocks:
  assumes "BlockList f = []"
  shows "Resume env f =
     (Returned (), f\<lparr>paused := False, calls := calls f @ [(OnError 0 noBlocks, False)]\<rparr>)"
  using assms by (simp add: Resume_def fire_def)

theorem Resume_without_blocks_witness:
  "BlockList (New ''u'' 10) = [] \<and>
   Resume (replicate 5 [Response [Read [1, 2] (Some EOF) None]]) (New ''u'' 10) =
     (Returned (),
      (New ''u'' 10)\<lparr>calls := [(OnError 0 (ErrorsNew ''BlockList == nil, can not get block info''), False)]\<rparr>)"
proof -
  have h: "BlockList (New ''u'' 10) = []" by (simp add: New_def)
  from Resume_without_blocks [OF h, of "replicate 5 [Response [Read [1, 2] (Some EOF) None]]"]
  have "Resume (replicate 5 [Response [Read [1, 2] (Some EOF) None]]) (New ''u'' 10) =
     (Returned (),
      (New ''u'' 10)\<lparr>calls := [(OnError 0 (ErrorsNew ''BlockList == nil, can not get block info''), False)]\<rparr>)"
    by (simp add: New_def noBlocks_def)
  with h show ?thesis by (intro conjI)
qed

text \<open>
  Claim C9: \<^verbatim>\<open>Resume\<close> clears \<^verbatim>\<open>f.paused\<close> before it looks at the \<^verbatim>\<open>BlockList\<close>: with a
  \<^verbatim>\<open>nil\<close> list the error callback is invoked (with the flag already \<open>False\<close> at that
  moment) and no fetcher runs, and the flag is \<open>False\<close> afterwards, so a transfer that was
  paused is not left as it was.
\<close>

theorem Resume_clears_paused_first:
  assumes "BlockList f = []"
  shows "\<not> paused (snd (Resume env f)) \<and>
         calls (snd (Resume env f)) = calls f @ [(OnError 0 noBlocks, False)] \<and>
         requests (snd (Resume env f)) = requests f \<and>
         Stream (snd (Resume env f)) = Stream f \<and>
         monitors (snd (Resume env f)) = monitors f \<and>
         (paused f \<longrightarrow> paused (snd (Resume env f)) \<noteq> paused f)"
  using assms by (simp add: Resume_def fire_def)

theorem Resume_clears_paused_first_witness:
  "BlockList (Pause (New ''u'' 10)) = [] \<and> paused (Pause (New ''u'' 10)) \<and>
   \<not> paused (snd (Resume [] (Pause (New ''u'' 10)))) \<and>
   calls (snd (Resume [] (Pause (New ''u'' 10)))) =
     calls (Pause (New ''u'' 10)) @ [(OnError 0 noBlocks, False)] \<and>
   paused (snd (Resume [] (Pause (New ''u'' 10)))) \<noteq> paused (Pause (New ''u'' 10))"
proof -
  have h: "BlockList (Pause (New ''u'' 10)) = []" by (simp add: New_def)
  have p: "paused (Pause (New ''u'' 10))" by simp
  note t = Resume_clears_paused_first [OF h, of "[]"]
  from t have a: "\<not> paused (snd (Resume [] (Pause (New ''u'' 10))))" by blast
  from t have c: "calls (snd (Resume [] (Pause (New ''u'' 10)))) =
     calls (Pause (New ''u'' 10)) @ [(OnError 0 noBlocks, False)]" by blast
  from t p have b: "paused (snd (Resume [] (Pause (New ''u'' 10)))) \<noteq> paused (Pause (New ''u'' 10))"
    by blast
  from h p a c b show ?thesis by (intro conjI)
qed

subsection \<open>The end of \<^verbatim>\<open>download\<close>\<close>

text \<open>
  Claim C10: when \<^verbatim>\<open>download\<close> gets past the receive loop with \<^verbatim>\<open>f.paused\<close> clear, it sets
  the flag and then fires \<^verbatim>\<open>onFinish\<close> (the callback sees the flag \<open>True\<close>); so whenever
  \<^verbatim>\<open>download\<close> returns, after a finish as after a pause, the flag reads \<open>True\<close>.
\<close>

theorem download_finish_sets_paused:
  assumes "download env f = (Returned r, f')"
  shows "paused f' \<and>
     (if paused (snd (spawn [0..<length (BlockList f)] env (startGetSpeeds f)))
      then f' = fire OnPause (snd (spawn [0..<length (BlockList f)] env (startGetSpeeds f)))
      else f' = fire OnFinish
                  ((snd (spawn [0..<length (BlockList f)] env (startGetSpeeds f)))\<lparr>paused := True\<rparr>) \<and>
           last (calls f') = (OnFinish, True))"
proof -
  obtain ends f1 where s: "spawn [0..<length (BlockList f)] env (startGetSpeeds f) = (ends, f1)"
    by (cases "spawn [0..<length (BlockList f)] env (startGetSpeeds f)")
  show ?thesis
    using assms by (auto simp: download_def s fire_def split: if_splits)
qed

theorem download_finish_sets_paused_witness:
  "download (replicate 5 [Response [Read [7] (Some EOF) None]]) (plan (New ''u'' 10)) =
     (Returned None,
      (New ''u'' 10)\<lparr>
         BlockList := [\<lparr>Begin = 1, End = 2\<rparr>, \<lparr>Begin = 4, End = 4\<rparr>, \<lparr>Begin = 6, End = 6\<rparr>,
                       \<lparr>Begin = 8, End = 8\<rparr>, \<lparr>Begin = 10, End = 10\<rparr>],
         Stream := [(0, [7]), (3, [7]), (5, [7]), (7, [7]), (9, [7])],
         status := \<lparr>Downloaded = 5, Speeds = 0\<rparr>,
         requests := [Some (0, 2), Some (3, 4), Some (5, 6), Some (7, 8), Some (9, 10)],
         monitors := 1, paused := True, calls := [(OnFinish, True)]\<rparr>) \<and>
   paused (snd (download (replicate 5 [Response [Read [7] (Some EOF) None]]) (plan (New ''u'' 10))))"
proof -
  let ?env = "replicate 5 [Response [Read [7] (Some EOF) None]]"
  have u: "[0..<5] = [0, 1, 2, 3, 4]" by (simp add: upt_rec)
  have r: "replicate 5 x = [x, x, x, x, x]" for x :: "attempt list"
    by (simp add: numeral_eq_Suc)
  have h: "download ?env (plan (New ''u'' 10)) =
     (Returned None,
      (New ''u'' 10)\<lparr>
         BlockList := [\<lparr>Begin = 1, End = 2\<rparr>, \<lparr>Begin = 4, End = 4\<rparr>, \<lparr>Begin = 6, End = 6\<rparr>,
                       \<lparr>Begin = 8, End = 8\<rparr>, \<lparr>Begin = 10, End = 10\<rparr>],
         Stream := [(0, [7]), (3, [7]), (5, [7]), (7, [7]), (9, [7])],
         status := \<lparr>Downloaded = 5, Speeds = 0\<rparr>,
         requests := [Some (0, 2), Some (3, 4), Some (5, 6), Some (7, 8), Some (9, 10)],
         monitors := 1, paused := True, calls := [(OnFinish, True)]\<rparr>)"
    by (simp add: plan_def plan_loop_unrolled New_def download_def startGetSpeeds_def script_def
          send_def downloadBlock_iter_def needSize_def WriteAt_def Let_def MaxThread_def await_le
          fire_def u r)
  from download_finish_sets_paused [OF h]
  have "paused (snd (download ?env (plan (New ''u'' 10))))"
    by (simp add: h)
  with h show ?thesis by (intro conjI)
qed

subsection \<open>A block that is already fetched\<close>





lemma send_fields [simp]:
  "BlockList (send k f) = BlockList f" "status (send k f) = status f"
  "Stream (send k f) = Stream f" "paused (send k f) = paused f" "calls (send k f) = calls f"
  "monitors (send k f) = monitors f"
  by (simp_all add: send_def Let_def)

lemma needSize_send [simp]: "needSize k (send j f) = needSize k f"
  by (simp add: needSize_def)






subsection \<open>The counter \<^verbatim>\<open>Downloaded\<close>\<close>

lemma fire_fields [simp]:
  "status (fire cb f) = status f" "BlockList (fire cb f) = BlockList f"
  "Stream (fire cb f) = Stream f" "paused (fire cb f) = paused f"
  "requests (fire cb f) = requests f" "monitors (fire cb f) = monitors f"
  "calls (fire cb f) = calls f @ [(cb, paused f)]"
  by (simp_all add: fire_def)

lemma startGetSpeeds_fields [simp]:
  "status (startGetSpeeds f) = status f" "BlockList (startGetSpeeds f) = BlockList f"
  "Stream (startGetSpeeds f) = Stream f" "paused (startGetSpeeds f) = paused f"
  "requests (startGetSpeeds f) = requests f" "calls (startGetSpeeds f) = calls f"
  by (simp_all add: startGetSpeeds_def)

lemma status_plan [simp]: "status (plan f) = status f"
  by (simp add: plan_def Let_def)

text \<open>The steps of the control threads are the parts of the functions above.\<close>

lemma Resume_by_head:
  "Resume env f =
     (if BlockList f = [] then (Returned (), Resume_head f) else run_download env (Resume_head f))"
  by (simp add: Resume_def Resume_head_def Let_def)

lemma download_by_tail:
  "download env f =
     (case spawn [0..<length (BlockList f)] env (startGetSpeeds f) of
        (ends, f') \<Rightarrow>
          if Panicked \<in> set ends then (Crashed, f')
          else if \<not> await MaxThread (length (filter (\<lambda>r. r = Completed) ends)) then (Blocked, f')
          else (Returned None, download_tail f'))"
  by (simp add: download_def download_tail_def split: prod.splits)

lemma wrap64_id: "- (2 ^ 63) \<le> x \<Longrightarrow> x < 2 ^ 63 \<Longrightarrow> wrap64 x = x"
  by (simp add: wrap64_def)

text \<open>
  The steps of a pass, run one after the other with no step of another thread in between
  and a sum that is an \<^verbatim>\<open>int64\<close>, do to the file what \<open>downloadBlock_iter\<close> does.
\<close>

lemma pass_steps:
  assumes "at (fetchers m k) = AtRead" and "end_local (fetchers m k) = end"
    and "\<not> paused (shared m)"
    and "downloadBlock_iter end k data e werr (shared m) = (r, f')" and "r \<noteq> Some Panic"
    and "- (2 ^ 63) \<le> Downloaded (status f')" and "Downloaded (status f') < 2 ^ 63"
  shows "shared (fold exec [BodyRead k data e, StreamWriteAt k werr, Load k, Store k, Advance k] m) = f'"
proof -
  define b where "b = (if end \<noteq> - 1 \<and> int (length data) > needSize k (shared m)
                       then needSize k (shared m) else int (length data))"
  have it: "downloadBlock_iter end k data e werr (shared m) =
      (if b < 0 then (Some Panic, shared m)
       else (fst (downloadBlock_iter end k data e werr (shared m)),
             credit k b (WriteAt (take (nat b) data) (Begin (BlockList (shared m) ! k)) werr (shared m))))"
    by (simp add: downloadBlock_iter_def Let_def b_def credit_def split: option.splits)
  with assms(4,5) have n: "\<not> b < 0" by (auto split: if_splits)
  with it assms(4) have f': "f' =
      credit k b (WriteAt (take (nat b) data) (Begin (BlockList (shared m) ! k)) werr (shared m))"
    by simp
  then have "Downloaded (status f') = Downloaded (status (shared m)) + b" by simp
  with assms(6,7) have w: "wrap64 (Downloaded (status (shared m)) + b) = Downloaded (status (shared m)) + b"
    by (simp add: wrap64_id)
  let ?g1 = "(fetchers m k)\<lparr>at := AtWriteAt, buf := data, bufSize := b, n_local := b,
      e_local := (if end \<noteq> - 1 \<and> int (length data) > needSize k (shared m) then Some EOF else e)\<rparr>"
  have s1: "exec (BodyRead k data e) m = m\<lparr>fetchers := (fetchers m)(k := ?g1)\<rparr>"
    using assms(1,2,3) by (simp add: Let_def b_def)
  let ?m1 = "m\<lparr>fetchers := (fetchers m)(k := ?g1)\<rparr>"
  let ?f2 = "WriteAt (take (nat b) data) (Begin (BlockList (shared m) ! k)) werr (shared m)"
  have s2: "exec (StreamWriteAt k werr) ?m1 =
      m\<lparr>shared := ?f2, fetchers := (fetchers m)(k := ?g1\<lparr>at := AtLoad\<rparr>)\<rparr>"
    using n by (simp add: Let_def)
  let ?m2 = "m\<lparr>shared := ?f2, fetchers := (fetchers m)(k := ?g1\<lparr>at := AtLoad\<rparr>)\<rparr>"
  have s3: "exec (Load k) ?m2 =
      m\<lparr>shared := ?f2,
        fetchers := (fetchers m)
          (k := ?g1\<lparr>at := AtStore, loaded := Downloaded (status (shared m))\<rparr>)\<rparr>"
    by (simp add: Let_def)
  let ?m3 = "m\<lparr>shared := ?f2,
        fetchers := (fetchers m)
          (k := ?g1\<lparr>at := AtStore, loaded := Downloaded (status (shared m))\<rparr>)\<rparr>"
  have s4: "shared (exec (Advance k) (exec (Store k) ?m3)) = credit k b ?f2"
    by (simp add: Let_def w credit_def)
  show ?thesis
    by (simp only: fold_simps comp_apply s1 s2 s3 s4 f' id_apply)
qed











subsection \<open>A write that fails\<close>

lemma forget_Stream_fields [simp]:
  "BlockList (forget_Stream f) = BlockList f" "status (forget_Stream f) = status f"
  "paused (forget_Stream f) = paused f" "calls (forget_Stream f) = calls f"
  "requests (forget_Stream f) = requests f" "monitors (forget_Stream f) = monitors f"
  by (simp_all add: forget_Stream_def)

lemma forget_Stream_steps [simp]:
  "forget_Stream (WriteAt b off werr f) = forget_Stream f"
  "forget_Stream (credit k n f) = credit k n (forget_Stream f)"
  "forget_Stream (Pause f) = Pause (forget_Stream f)"
  "forget_Stream (fire cb f) = fire cb (forget_Stream f)"
  "forget_Stream (send k f) = send k (forget_Stream f)"
  by (simp_all add: forget_Stream_def WriteAt_def credit_def Pause_def fire_def send_def Let_def
      split: option.splits)

lemma forget_Stream_eqD:
  assumes "forget_Stream f = forget_Stream g"
  shows "BlockList f = BlockList g" and "paused f = paused g" and "needSize k f = needSize k g"
proof -
  have "BlockList (forget_Stream f) = BlockList (forget_Stream g)" using assms by simp
  then show b: "BlockList f = BlockList g" by simp
  have "paused (forget_Stream f) = paused (forget_Stream g)" using assms by simp
  then show "paused f = paused g" by simp
  from b show "needSize k f = needSize k g" by (simp add: needSize_def)
qed

lemma iter_forget_Stream:
  assumes "forget_Stream f = forget_Stream g"
  shows "fst (downloadBlock_iter end k data e w f) = fst (downloadBlock_iter end k data e w' g) \<and>
         forget_Stream (snd (downloadBlock_iter end k data e w f)) =
         forget_Stream (snd (downloadBlock_iter end k data e w' g))"
proof -
  note n = forget_Stream_eqD(3) [OF assms, of k]
  show ?thesis
  proof (cases "end \<noteq> - 1 \<and> needSize k f < int (length data)")
    case True
    show ?thesis
    proof (cases "needSize k f < 0")
      case True
      with \<open>end \<noteq> - 1 \<and> needSize k f < int (length data)\<close> n assms
      show ?thesis by (simp add: iter_panic)
    next
      case False
      with True n assms show ?thesis by (simp add: iter_cut)
    qed
  next
    case False
    then have "end = - 1 \<or> int (length data) \<le> needSize k f" by auto
    moreover from this n have "end = - 1 \<or> int (length data) \<le> needSize k g" by simp
    ultimately show ?thesis using assms by (simp add: iter_whole)
  qed
qed

lemma loop_forget_Stream:
  assumes "forget_Stream f = forget_Stream g"
  shows "fst (downloadBlock_loop end k evs f) = fst (downloadBlock_loop end k (map sink_ok evs) g) \<and>
         forget_Stream (fst (snd (downloadBlock_loop end k evs f))) =
         forget_Stream (fst (snd (downloadBlock_loop end k (map sink_ok evs) g)))"
  using assms
proof (induction evs arbitrary: f g)
  case Nil
  then show ?case using forget_Stream_eqD(2) [OF Nil] by simp
next
  case (Cons ev evs)
  note p = forget_Stream_eqD(2) [OF Cons.prems]
  show ?case
  proof (cases ev)
    case PauseCall
    have "forget_Stream (Pause f) = forget_Stream (Pause g)"
      using Cons.prems by simp
    from Cons.IH [OF this] PauseCall show ?thesis by simp
  next
    case (Read data e werr)
    show ?thesis
    proof (cases "paused f")
      case True
      with p Read Cons.prems show ?thesis by simp
    next
      case False
      obtain r1 f1 where a: "downloadBlock_iter end k data e werr f = (r1, f1)"
        by (cases "downloadBlock_iter end k data e werr f")
      obtain r2 g1 where b: "downloadBlock_iter end k data e None g = (r2, g1)"
        by (cases "downloadBlock_iter end k data e None g")
      from iter_forget_Stream [OF Cons.prems, of "end" k data e werr None] a b
      have same: "r1 = r2" "forget_Stream f1 = forget_Stream g1" by simp_all
      show ?thesis
      proof (cases r1)
        case None
        with Cons.IH [OF same(2)] same(1) a b False p Read show ?thesis by simp
      next
        case (Some r)
        with a b same have "downloadBlock_iter end k data e werr f = (Some r, f1)"
          and "downloadBlock_iter end k data e None g = (Some r, g1)" by simp_all
        with same(2) False p Read show ?thesis by simp
      qed
    qed
  qed
qed

lemma downloadBlock_forget_Stream:
  assumes "forget_Stream f = forget_Stream g"
  shows "fst (downloadBlock k a f) = fst (downloadBlock k (writes_succeed a) g) \<and>
         forget_Stream (snd (downloadBlock k a f)) =
         forget_Stream (snd (downloadBlock k (writes_succeed a) g))"
proof -
  note b = forget_Stream_eqD(1) [OF assms]
  show ?thesis
  proof (cases a)
    case (NewRequestFails err)
    with assms show ?thesis by simp
  next
    case (DoFails err)
    with assms b show ?thesis by simp
  next
    case (Response body)
    have s: "forget_Stream (send k f) = forget_Stream (send k g)"
      using assms by simp
    from loop_forget_Stream [OF s, of "End (BlockList g ! k)" k body] Response b assms
    show ?thesis by (simp add: split_beta)
  qed
qed

lemma fetcher_forget_Stream:
  assumes "forget_Stream f = forget_Stream g"
  shows "fst (fetcher k as f) = fst (fetcher k (map writes_succeed as) g) \<and>
         forget_Stream (snd (fetcher k as f)) =
         forget_Stream (snd (fetcher k (map writes_succeed as) g))"
  using assms
proof (induction as arbitrary: f g)
  case Nil
  then show ?case by simp
next
  case (Cons a as)
  obtain r f1 where x: "downloadBlock k a f = (r, f1)" by (cases "downloadBlock k a f")
  obtain r' g1 where y: "downloadBlock k (writes_succeed a) g = (r', g1)"
    by (cases "downloadBlock k (writes_succeed a) g")
  from downloadBlock_forget_Stream [OF Cons.prems, of k a] x y
  have same: "r = r'" "forget_Stream f1 = forget_Stream g1" by simp_all
  show ?case
  proof (cases r)
    case (Ret v)
    show ?thesis
    proof (cases v)
      case None
      with Ret same x y show ?thesis by simp
    next
      case (Some err)
      have "forget_Stream (fire (OnError 0 err) f1) = forget_Stream (fire (OnError 0 err) g1)"
        using same(2) by simp
      from Cons.IH [OF this] Some Ret same x y show ?thesis by simp
    qed
  next
    case Panic
    with same x y show ?thesis by simp
  next
    case Stalled
    with same x y show ?thesis by simp
  qed
qed

text \<open>
  The results of \<^verbatim>\<open>WriteAt\<close> are dropped (line 155): what a fetch returns, and everything
  it does to the file apart from the sink, is what it would be had every write
  succeeded; so are the outcome of the retry loop and the callbacks it fires.
\<close>

lemma downloadBlock_ignores_write_failures:
  "fst (downloadBlock k a f) = fst (downloadBlock k (writes_succeed a) f) \<and>
   forget_Stream (snd (downloadBlock k a f)) =
     forget_Stream (snd (downloadBlock k (writes_succeed a) f)) \<and>
   fst (fetcher k as f) = fst (fetcher k (map writes_succeed as) f) \<and>
   calls (snd (fetcher k as f)) = calls (snd (fetcher k (map writes_succeed as) f))"
proof -
  have e: "forget_Stream (snd (fetcher k as f)) =
           forget_Stream (snd (fetcher k (map writes_succeed as) f))"
    using fetcher_forget_Stream [OF refl, of k as f] by simp
  have "calls (forget_Stream (snd (fetcher k as f))) =
        calls (forget_Stream (snd (fetcher k (map writes_succeed as) f)))"
    by (simp only: e)
  then have c: "calls (snd (fetcher k as f)) = calls (snd (fetcher k (map writes_succeed as) f))"
    by simp
  show ?thesis
    using downloadBlock_forget_Stream [OF refl, of k a f]
      fetcher_forget_Stream [OF refl, of k as f] c
    by blast
qed

text \<open>
  Claim C4: a write of a chunk that fails makes \<^verbatim>\<open>downloadBlock\<close> return that failure, so
  that it reaches the error callback and the retry loop as a failed read does. The code
  returns the errors of \<^verbatim>\<open>NewRequest\<close>, \<^verbatim>\<open>Do\<close> and \<^verbatim>\<open>Body.Read\<close> and drops the one of
  \<^verbatim>\<open>WriteAt\<close>. Evaluated for the block \<open>{0, 9}\<close> and a response of three bytes whose write
  fails: the fetch returns \<^verbatim>\<open>nil\<close>, \<^verbatim>\<open>Begin\<close> and \<^verbatim>\<open>Downloaded\<close> move on by the three bytes
  that are not in the sink, the goroutine completes and the error callback is not
  called.
\<close>

theorem downloadBlock_write_failure_not_returned:
  "downloadBlock 0 (Response [Read [1, 2, 3] (Some EOF) (Some WriteError)])
       ((New ''u'' 10)\<lparr>BlockList := [\<lparr>Begin = 0, End = 9\<rparr>]\<rparr>) =
     (Ret None,
      (New ''u'' 10)\<lparr>BlockList := [\<lparr>Begin = 3, End = 9\<rparr>], Stream := [],
         status := \<lparr>Downloaded = 3, Speeds = 0\<rparr>, requests := [Some (0, 9)]\<rparr>) \<and>
   fst (fetcher 0 [Response [Read [1, 2, 3] (Some EOF) (Some WriteError)]]
         ((New ''u'' 10)\<lparr>BlockList := [\<lparr>Begin = 0, End = 9\<rparr>]\<rparr>)) = Completed \<and>
   calls (snd (fetcher 0 [Response [Read [1, 2, 3] (Some EOF) (Some WriteError)]]
         ((New ''u'' 10)\<lparr>BlockList := [\<lparr>Begin = 0, End = 9\<rparr>]\<rparr>))) = []"
  by (simp add: New_def downloadBlock_iter_def needSize_def WriteAt_def send_def Let_def)


end
